theory Spec2Isabelle
  imports Main "HOL-Library.Sublist"
begin

section \<open>Data model\<close>

text \<open>
  The server module keeps two module-level values: the array \<open>notifications\<close> and the
  \<open>pubsub\<close> instance. A notification is the object \<open>{ label: args.label }\<close>; the value
  handed to \<open>pubsub.publish\<close> is the object \<open>{ newNotification: newNotification }\<close>.
\<close>

record notification =
  label :: string

record payload =
  newNotification :: notification

definition NOTIFICATION_SUBSCRIPTION_TOPIC :: string where
  "NOTIFICATION_SUBSCRIPTION_TOPIC = ''newNotifications''"

section \<open>The topic broker\<close>

text \<open>
  The class \<open>PubSub\<close> behind \<open>pubsub\<close> and the \<open>SubscriptionServer\<close> are imported by the
  server module (\<open>require('graphql-subscriptions')\<close>,
  \<open>require('subscriptions-transport-ws')\<close>); their code is not among the sources. Every
  definition of this section is therefore written from the spec's Topic Broker (4.2), its
  Subscriber Channel (3) and the \<open>cancel\<close> of its Subscription Session (4.3).
\<close>

text \<open>
  Modelled from the spec: the Subscriber Channel of \<open>PubSub\<close>, a delivery queue and a
  liveness flag. Consumption by \<open>next\<close> is left out, so \<open>queue\<close> holds every event
  delivered to the channel, oldest first.
\<close>

record channel =
  queue :: "payload list"
  live :: bool

text \<open>
  Modelled from the spec: the state of \<open>PubSub\<close>. Channels live in a store indexed by
  their handle; the registry lists, in registration order, which handle is registered
  under which topic. \<open>published\<close> is the trace of the calls to \<open>publish\<close>, in call
  order: the broker keeps no copy of an event, the trace only makes the calls observable.
\<close>

record broker =
  registry :: "(string \<times> nat) list"
  channels :: "nat \<rightharpoonup> channel"
  next_handle :: nat
  published :: "(string \<times> payload) list"

text \<open>
  Modelled from the spec: \<open>new PubSub()\<close>, a broker with no channel and no
  registration.
\<close>

definition new_PubSub :: broker where
  "new_PubSub = \<lparr>registry = [], channels = Map.empty, next_handle = 0, published = []\<rparr>"

text \<open>
  Modelled from the spec: the liveness flag and the delivered events of the channel
  behind a handle; a handle with no channel is not live and has observed nothing.
\<close>

definition is_live :: "(nat \<rightharpoonup> channel) \<Rightarrow> nat \<Rightarrow> bool" where
  "is_live chs h = (case chs h of None \<Rightarrow> False | Some c \<Rightarrow> live c)"

definition observed :: "broker \<Rightarrow> nat \<Rightarrow> payload list" where
  "observed b h = (case channels b h of None \<Rightarrow> [] | Some c \<Rightarrow> queue c)"

text \<open>
  Modelled from the spec: one step of the fan-out of \<open>PubSub.publish\<close>. The event
  goes to the channel of registry entry \<open>r\<close> when the entry is on the published topic
  and the channel is live; delivery to one channel does not touch any other.
\<close>

definition deliver ::
  "string \<Rightarrow> payload \<Rightarrow> string \<times> nat \<Rightarrow> (nat \<rightharpoonup> channel) \<Rightarrow> (nat \<rightharpoonup> channel)" where
  "deliver t e r chs =
     (case chs (snd r) of
        None \<Rightarrow> chs
      | Some c \<Rightarrow>
          if fst r = t \<and> live c then chs(snd r \<mapsto> c\<lparr>queue := queue c @ [e]\<rparr>) else chs)"

text \<open>
  Modelled from the spec: \<open>PubSub.publish(topic, event)\<close> delivers to every channel
  registered on the topic; a channel on that topic that is closed or defunct is dropped
  from the registry, without an error.
\<close>

definition publish :: "string \<Rightarrow> payload \<Rightarrow> broker \<Rightarrow> broker" where
  "publish t e b =
     b\<lparr>registry := filter (\<lambda>r. if fst r = t then is_live (channels b) (snd r) else True) (registry b),
       channels := fold (deliver t e) (registry b) (channels b),
       published := published b @ [(t, e)]\<rparr>"

text \<open>
  Modelled from the spec: \<open>subscribe(topic)\<close>, which the source reaches as
  \<open>pubsub.asyncIterator(topic)\<close>, creates a new channel with an empty queue, registers
  it under the topic and returns its handle.
\<close>

definition subscribe :: "string \<Rightarrow> broker \<Rightarrow> nat \<times> broker" where
  "subscribe t b =
     (next_handle b,
      b\<lparr>registry := registry b @ [(t, next_handle b)],
        channels := (channels b)(next_handle b \<mapsto> \<lparr>queue = [], live = True\<rparr>),
        next_handle := Suc (next_handle b)\<rparr>)"

text \<open>
  Modelled from the spec: the end of a channel's life, shared by \<open>unsubscribe\<close> and
  \<open>cancel\<close>. The events already delivered stay readable.
\<close>

definition mark_terminal :: "nat \<Rightarrow> (nat \<rightharpoonup> channel) \<Rightarrow> (nat \<rightharpoonup> channel)" where
  "mark_terminal h chs =
     (case chs h of None \<Rightarrow> chs | Some c \<Rightarrow> chs(h \<mapsto> c\<lparr>live := False\<rparr>))"

text \<open>
  Modelled from the spec: \<open>unsubscribe(handle)\<close> deregisters and releases the channel;
  it has no failing case.
\<close>

definition unsubscribe :: "nat \<Rightarrow> broker \<Rightarrow> broker" where
  "unsubscribe h b =
     b\<lparr>registry := filter (\<lambda>r. snd r \<noteq> h) (registry b),
       channels := mark_terminal h (channels b)\<rparr>"

text \<open>
  Modelled from the spec: \<open>cancel()\<close> of the session over channel \<open>h\<close> marks it
  terminal. The registry is left to the broker, which drops the defunct channel at the
  next publish on its topic.
\<close>

definition cancel :: "nat \<Rightarrow> broker \<Rightarrow> broker" where
  "cancel h b = b\<lparr>channels := mark_terminal h (channels b)\<rparr>"

section \<open>The resolvers\<close>

record server =
  notifications :: "notification list"
  pubsub :: broker

definition initial_server :: server where
  "initial_server = \<lparr>notifications = [], pubsub = new_PubSub\<rparr>"

text \<open>\<open>Query: { notifications: () => notifications }\<close>\<close>

definition Query_notifications :: "server \<Rightarrow> notification list \<times> server" where
  "Query_notifications s = (notifications s, s)"

text \<open>
  \<open>Mutation.pushNotification\<close>; the argument is \<open>args.label\<close>:
  \<^verbatim>\<open>
  const newNotification = { label: args.label };
  notifications.push(newNotification);
  pubsub.publish(NOTIFICATION_SUBSCRIPTION_TOPIC, { newNotification: newNotification });
  return newNotification;
  \<close>
\<close>

definition pushNotification :: "string \<Rightarrow> server \<Rightarrow> notification \<times> server" where
  "pushNotification l s =
     (let n = \<lparr>label = l\<rparr>;
          s1 = s\<lparr>notifications := notifications s @ [n]\<rparr>;
          s2 = s1\<lparr>pubsub := publish NOTIFICATION_SUBSCRIPTION_TOPIC \<lparr>newNotification = n\<rparr> (pubsub s1)\<rparr>
      in (n, s2))"

text \<open>
  \<open>Subscription.newNotification.subscribe\<close>:
  \<open>() => pubsub.asyncIterator(NOTIFICATION_SUBSCRIPTION_TOPIC)\<close>
\<close>

definition newNotification_subscribe :: "server \<Rightarrow> nat \<times> server" where
  "newNotification_subscribe s =
     (let (h, b) = subscribe NOTIFICATION_SUBSCRIPTION_TOPIC (pubsub s)
      in (h, s\<lparr>pubsub := b\<rparr>))"

section \<open>Requests\<close>

text \<open>
  Modelled from the spec: the schema layer that executes a mutation request
  (\<open>makeExecutableSchema\<close>, \<open>graphqlExpress\<close>) is imported, its code is not among the
  sources. The type definitions declare \<open>pushNotification(label: String!)\<close>: a request
  whose label is missing or null (\<open>None\<close>) is refused with the request-level
  \<open>ValidationError\<close> before the resolver runs; every string reaches the resolver, whose
  result is the response.
\<close>

datatype error = ValidationError

definition Mutation_pushNotification :: "string option \<Rightarrow> server \<Rightarrow> (error + notification) \<times> server" where
  "Mutation_pushNotification a s =
     (case a of
        None \<Rightarrow> (Inl ValidationError, s)
      | Some l \<Rightarrow> (let (n, s') = pushNotification l s in (Inr n, s')))"

text \<open>
  Modelled from the spec: the operations the gateway accepts (4.4). A query, a mutation
  and a subscription go to their resolvers; when the transport reports a client
  disconnected, \<open>unsubscribe\<close> is called for its channel; a consumer may cancel its
  session.
\<close>

datatype request =
    Query
  | Mutation "string option"
  | Subscription
  | Disconnect nat
  | Cancel nat

datatype response =
    Notifications "notification list"
  | Pushed notification
  | Failed error
  | Subscribed nat
  | Closed

fun step :: "request \<Rightarrow> server \<Rightarrow> response \<times> server" where
  "step Query s = (let (ns, s') = Query_notifications s in (Notifications ns, s'))"
| "step (Mutation a) s =
     (case Mutation_pushNotification a s of
        (Inl e, s') \<Rightarrow> (Failed e, s')
      | (Inr n, s') \<Rightarrow> (Pushed n, s'))"
| "step Subscription s = (let (h, s') = newNotification_subscribe s in (Subscribed h, s'))"
| "step (Disconnect h) s = (Closed, s\<lparr>pubsub := unsubscribe h (pubsub s)\<rparr>)"
| "step (Cancel h) s = (Closed, s\<lparr>pubsub := cancel h (pubsub s)\<rparr>)"

fun run :: "request list \<Rightarrow> server \<Rightarrow> server" where
  "run [] s = s"
| "run (r # rs) s = run rs (snd (step r s))"

text \<open>The labels of the mutations of a request sequence that reach the resolver, in order.\<close>

fun pushed :: "request list \<Rightarrow> string list" where
  "pushed [] = []"
| "pushed (Mutation (Some l) # rs) = l # pushed rs"
| "pushed (_ # rs) = pushed rs"

definition event_of :: "string \<Rightarrow> payload" where
  "event_of l = \<lparr>newNotification = \<lparr>label = l\<rparr>\<rparr>"

section \<open>Invariants of the broker\<close>

text \<open>
  A broker is well formed when no handle is registered twice and every registered handle
  has been handed out by \<open>subscribe\<close>. Relative to a handle \<open>h\<close>, a broker is
  \<^item> \<open>active\<close>: the channel is live and registered under the notification topic;
  \<^item> \<open>dead\<close>: the channel was handed out and is no longer live;
  \<^item> \<open>gone\<close>: dead and not in the registry any more.
  A request \<open>keeps\<close> the channel \<open>h\<close> unless it disconnects or cancels it.
\<close>

definition wf_broker :: "broker \<Rightarrow> bool" where
  "wf_broker b = (distinct (map snd (registry b)) \<and> list_all (\<lambda>r. snd r < next_handle b) (registry b))"

definition dead :: "nat \<Rightarrow> broker \<Rightarrow> bool" where
  "dead h b = (\<not> is_live (channels b) h \<and> h < next_handle b \<and> wf_broker b)"

definition active :: "nat \<Rightarrow> broker \<Rightarrow> bool" where
  "active h b =
     ((NOTIFICATION_SUBSCRIPTION_TOPIC, h) \<in> set (registry b) \<and> is_live (channels b) h \<and> wf_broker b)"

definition keeps :: "nat \<Rightarrow> request \<Rightarrow> bool" where
  "keeps h r = (r \<noteq> Disconnect h \<and> r \<noteq> Cancel h)"

definition gone :: "nat \<Rightarrow> broker \<Rightarrow> bool" where
  "gone h b = (dead h b \<and> h \<notin> snd ` set (registry b))"

section \<open>The fan-out of one publish\<close>

lemma deliver_None: "chs h = None \<Longrightarrow> deliver t e r chs h = None"
  by (cases "chs (snd r)") (auto simp: deliver_def)

lemma deliver_Some:
  "chs h = Some c \<Longrightarrow>
   deliver t e r chs h = Some (if r = (t, h) \<and> live c then c\<lparr>queue := queue c @ [e]\<rparr> else c)"
  by (cases "chs (snd r)") (auto simp: deliver_def)

lemma fold_deliver_None: "chs h = None \<Longrightarrow> fold (deliver t e) reg chs h = None"
  by (induction reg arbitrary: chs) (simp_all add: deliver_None)

lemma fold_deliver_Some:
  "chs h = Some c \<Longrightarrow>
   fold (deliver t e) reg chs h =
     Some (c\<lparr>queue := queue c @ replicate (if live c then count_list reg (t, h) else 0) e\<rparr>)"
proof (induction reg arbitrary: chs c)
  case Nil
  then show ?case by simp
next
  case (Cons r reg)
  let ?c' = "if r = (t, h) \<and> live c then c\<lparr>queue := queue c @ [e]\<rparr> else c"
  have "deliver t e r chs h = Some ?c'"
    using Cons.prems by (rule deliver_Some)
  then have "fold (deliver t e) reg (deliver t e r chs) h =
      Some (?c'\<lparr>queue := queue ?c' @ replicate (if live ?c' then count_list reg (t, h) else 0) e\<rparr>)"
    by (rule Cons.IH)
  then show ?case
    by (auto simp: replicate_append_same)
qed

lemma count_list_distinct_snd:
  "distinct (map snd reg) \<Longrightarrow> count_list reg (t, h) = (if (t, h) \<in> set reg then 1 else 0)"
  by (induction reg) (auto simp: rev_image_eqI)

lemma observed_publish:
  "distinct (map snd (registry b)) \<Longrightarrow>
   observed (publish t e b) h =
     (if (t, h) \<in> set (registry b) \<and> is_live (channels b) h then observed b h @ [e] else observed b h)"
  by (cases "channels b h")
     (auto simp: observed_def publish_def is_live_def fold_deliver_None fold_deliver_Some
        count_list_distinct_snd)

lemma is_live_publish: "is_live (channels (publish t e b)) h = is_live (channels b) h"
  by (cases "channels b h")
     (auto simp: publish_def is_live_def fold_deliver_None fold_deliver_Some)

section \<open>Well-formedness is kept\<close>

lemma wf_publish: "wf_broker b \<Longrightarrow> wf_broker (publish t e b)"
  by (auto simp: wf_broker_def publish_def distinct_map_filter list_all_iff)

lemma wf_subscribe: "wf_broker b \<Longrightarrow> wf_broker (snd (subscribe t b))"
  by (fastforce simp: wf_broker_def subscribe_def list_all_iff)

lemma wf_unsubscribe: "wf_broker b \<Longrightarrow> wf_broker (unsubscribe h b)"
  by (auto simp: wf_broker_def unsubscribe_def distinct_map_filter list_all_iff)

lemma wf_cancel: "wf_broker b \<Longrightarrow> wf_broker (cancel h b)"
  by (auto simp: wf_broker_def cancel_def)

lemma wf_new: "wf_broker new_PubSub"
  by (simp add: wf_broker_def new_PubSub_def)

lemma wf_step: "wf_broker (pubsub s) \<Longrightarrow> wf_broker (pubsub (snd (step r s)))"
proof (cases r)
  case (Mutation a)
  assume "wf_broker (pubsub s)"
  then show ?thesis using Mutation
    by (cases a) (simp_all add: Mutation_pushNotification_def pushNotification_def Let_def wf_publish)
next
  case Subscription
  assume "wf_broker (pubsub s)"
  then show ?thesis using Subscription wf_subscribe [of "pubsub s" NOTIFICATION_SUBSCRIPTION_TOPIC]
    by (simp add: newNotification_subscribe_def case_prod_beta)
qed (simp_all add: Query_notifications_def wf_unsubscribe wf_cancel)

lemma wf_run: "wf_broker (pubsub s) \<Longrightarrow> wf_broker (pubsub (run rs s))"
  by (induction rs arbitrary: s) (simp_all add: wf_step)

section \<open>What each broker operation does to one channel\<close>

lemma is_live_mark_terminal:
  "is_live (mark_terminal h' chs) h = (is_live chs h \<and> h \<noteq> h')"
  by (cases "chs h'") (auto simp: mark_terminal_def is_live_def)

lemma observed_unsubscribe: "observed (unsubscribe h' b) h = observed b h"
  by (cases "channels b h'") (auto simp: unsubscribe_def mark_terminal_def observed_def)

lemma observed_cancel: "observed (cancel h' b) h = observed b h"
  by (cases "channels b h'") (auto simp: cancel_def mark_terminal_def observed_def)

lemma observed_subscribe:
  "observed (snd (subscribe t b)) h = (if h = next_handle b then [] else observed b h)"
  by (simp add: subscribe_def observed_def)

lemma is_live_subscribe:
  "is_live (channels (snd (subscribe t b))) h = (h = next_handle b \<or> is_live (channels b) h)"
  by (simp add: subscribe_def is_live_def)

lemma publish_fields:
  "next_handle (publish t e b) = next_handle b"
  "registry (publish t e b) =
     filter (\<lambda>r. if fst r = t then is_live (channels b) (snd r) else True) (registry b)"
  "published (publish t e b) = published b @ [(t, e)]"
  by (simp_all add: publish_def)

lemma subscribe_fields:
  "fst (subscribe t b) = next_handle b"
  "next_handle (snd (subscribe t b)) = Suc (next_handle b)"
  "registry (snd (subscribe t b)) = registry b @ [(t, next_handle b)]"
  "published (snd (subscribe t b)) = published b"
  by (simp_all add: subscribe_def)

lemma unsubscribe_fields:
  "next_handle (unsubscribe h b) = next_handle b"
  "registry (unsubscribe h b) = filter (\<lambda>r. snd r \<noteq> h) (registry b)"
  "channels (unsubscribe h b) = mark_terminal h (channels b)"
  "published (unsubscribe h b) = published b"
  by (simp_all add: unsubscribe_def)

lemma cancel_fields:
  "next_handle (cancel h b) = next_handle b"
  "registry (cancel h b) = registry b"
  "channels (cancel h b) = mark_terminal h (channels b)"
  "published (cancel h b) = published b"
  by (simp_all add: cancel_def)

lemmas broker_fields = publish_fields subscribe_fields unsubscribe_fields cancel_fields

section \<open>The broker across a step of the server\<close>

lemma pubsub_push:
  "pubsub (snd (pushNotification l s)) = publish NOTIFICATION_SUBSCRIPTION_TOPIC (event_of l) (pubsub s)"
  by (simp add: pushNotification_def Let_def event_of_def)

lemma pubsub_step:
  "pubsub (snd (step r s)) =
     (case r of
        Query \<Rightarrow> pubsub s
      | Mutation None \<Rightarrow> pubsub s
      | Mutation (Some l) \<Rightarrow> publish NOTIFICATION_SUBSCRIPTION_TOPIC (event_of l) (pubsub s)
      | Subscription \<Rightarrow> snd (subscribe NOTIFICATION_SUBSCRIPTION_TOPIC (pubsub s))
      | Disconnect h \<Rightarrow> unsubscribe h (pubsub s)
      | Cancel h \<Rightarrow> cancel h (pubsub s))"
  by (simp add: Query_notifications_def Mutation_pushNotification_def newNotification_subscribe_def
      case_prod_beta pubsub_push split: request.splits option.splits)

section \<open>A channel across a sequence of requests\<close>

text \<open>
  A dead channel stays dead and observes nothing more; an active channel observes the
  events pushed until the first request that disconnects or cancels it.
\<close>

lemma dead_step: "dead h (pubsub s) \<Longrightarrow> dead h (pubsub (snd (step r s)))"
  unfolding dead_def pubsub_step
  by (auto simp: is_live_publish is_live_subscribe is_live_mark_terminal wf_publish wf_subscribe
      wf_unsubscribe wf_cancel broker_fields
      split: request.splits option.splits)

lemma dead_observed_step:
  "dead h (pubsub s) \<Longrightarrow> observed (pubsub (snd (step r s))) h = observed (pubsub s) h"
  unfolding dead_def pubsub_step
  by (auto simp: observed_publish wf_broker_def observed_subscribe observed_unsubscribe
      observed_cancel split: request.splits option.splits)

lemma dead_run:
  "dead h (pubsub s) \<Longrightarrow> observed (pubsub (run rs s)) h = observed (pubsub s) h"
  by (induction rs arbitrary: s) (simp_all add: dead_step dead_observed_step)

lemma active_lt: "active h b \<Longrightarrow> h < next_handle b"
  by (auto simp: active_def wf_broker_def list_all_iff)

lemma active_step:
  "active h (pubsub s) \<Longrightarrow> keeps h r \<Longrightarrow> active h (pubsub (snd (step r s)))"
  unfolding active_def pubsub_step keeps_def
  by (auto simp: is_live_publish is_live_subscribe wf_publish wf_subscribe
      wf_unsubscribe wf_cancel broker_fields
      is_live_mark_terminal
      split: request.splits option.splits)

lemma active_observed_step:
  "active h (pubsub s) \<Longrightarrow>
   observed (pubsub (snd (step r s))) h = observed (pubsub s) h @ map event_of (pushed [r])"
  using active_lt [of h "pubsub s"] unfolding active_def pubsub_step
  by (auto simp: observed_publish wf_broker_def observed_subscribe observed_unsubscribe
      observed_cancel split: request.splits option.splits)

lemma active_dead_step:
  "active h (pubsub s) \<Longrightarrow> \<not> keeps h r \<Longrightarrow> dead h (pubsub (snd (step r s)))"
  using active_lt [of h "pubsub s"] unfolding active_def dead_def keeps_def
  by (auto simp: is_live_mark_terminal wf_unsubscribe wf_cancel broker_fields)

lemma pushed_Cons: "pushed (r # rs) = pushed [r] @ pushed rs"
proof (cases r)
  case (Mutation a)
  then show ?thesis by (cases a) simp_all
qed simp_all

lemma active_run:
  "active h (pubsub s) \<Longrightarrow>
   observed (pubsub (run rs s)) h =
     observed (pubsub s) h @ map event_of (pushed (takeWhile (keeps h) rs))"
proof (induction rs arbitrary: s)
  case Nil
  then show ?case by simp
next
  case (Cons r rs)
  show ?case
  proof (cases "keeps h r")
    case True
    with Cons.prems have "active h (pubsub (snd (step r s)))"
      by (rule active_step)
    then have "observed (pubsub (run rs (snd (step r s)))) h =
        observed (pubsub (snd (step r s))) h @ map event_of (pushed (takeWhile (keeps h) rs))"
      by (rule Cons.IH)
    then show ?thesis
      using True Cons.prems pushed_Cons [of r "takeWhile (keeps h) rs"]
      by (simp add: active_observed_step)
  next
    case False
    with Cons.prems have d: "dead h (pubsub (snd (step r s)))"
      by (rule active_dead_step)
    have "pushed [r] = []"
      using False by (auto simp: keeps_def)
    then show ?thesis
      using False Cons.prems d by (simp add: dead_run active_observed_step)
  qed
qed

lemma subscribe_active:
  "wf_broker (pubsub s) \<Longrightarrow> active (fst (newNotification_subscribe s)) (pubsub (snd (newNotification_subscribe s)))"
  using wf_subscribe [of "pubsub s" NOTIFICATION_SUBSCRIPTION_TOPIC]
  by (simp add: active_def newNotification_subscribe_def case_prod_beta)
     (simp add: subscribe_def is_live_def)

section \<open>The log and the trace of publish calls\<close>

lemma notifications_step:
  "notifications (snd (step r s)) = notifications s @ map (\<lambda>l. \<lparr>label = l\<rparr>) (pushed [r])"
proof (cases r)
  case (Mutation a)
  then show ?thesis
    by (cases a) (simp_all add: Mutation_pushNotification_def pushNotification_def Let_def)
qed (simp_all add: Query_notifications_def newNotification_subscribe_def case_prod_beta)

lemma notifications_run:
  "notifications (run rs s) = notifications s @ map (\<lambda>l. \<lparr>label = l\<rparr>) (pushed rs)"
proof (induction rs arbitrary: s)
  case Nil
  show ?case by simp
next
  case (Cons r rs)
  show ?case
    using pushed_Cons [of r rs] by (simp add: Cons.IH notifications_step)
qed

lemma published_step:
  "published (pubsub (snd (step r s))) =
     published (pubsub s) @ map (\<lambda>l. (NOTIFICATION_SUBSCRIPTION_TOPIC, event_of l)) (pushed [r])"
  unfolding pubsub_step
  by (simp add: broker_fields split: request.splits option.splits)

lemma published_run:
  "published (pubsub (run rs s)) =
     published (pubsub s) @ map (\<lambda>l. (NOTIFICATION_SUBSCRIPTION_TOPIC, event_of l)) (pushed rs)"
proof (induction rs arbitrary: s)
  case Nil
  show ?case by simp
next
  case (Cons r rs)
  show ?case
    using pushed_Cons [of r rs] by (simp add: Cons.IH published_step)
qed

lemma registry_topic_step:
  "list_all (\<lambda>r. fst r = NOTIFICATION_SUBSCRIPTION_TOPIC) (registry (pubsub s)) \<Longrightarrow>
   list_all (\<lambda>r. fst r = NOTIFICATION_SUBSCRIPTION_TOPIC) (registry (pubsub (snd (step r s))))"
  unfolding pubsub_step
  by (auto simp: broker_fields list_all_iff split: request.splits option.splits)

lemma registry_topic_run:
  "list_all (\<lambda>r. fst r = NOTIFICATION_SUBSCRIPTION_TOPIC) (registry (pubsub s)) \<Longrightarrow>
   list_all (\<lambda>r. fst r = NOTIFICATION_SUBSCRIPTION_TOPIC) (registry (pubsub (run rs s)))"
  by (induction rs arbitrary: s) (simp_all add: registry_topic_step)

lemma wf_reachable: "wf_broker (pubsub (run rs initial_server))"
  by (rule wf_run) (simp add: initial_server_def wf_new)

lemma pushed_append: "pushed (rs @ rs') = pushed rs @ pushed rs'"
proof (induction rs)
  case Nil
  show ?case by simp
next
  case (Cons r rs)
  show ?case
    using pushed_Cons [of r "rs @ rs'"] pushed_Cons [of r rs] by (simp add: Cons.IH)
qed

lemma pushed_takeWhile_prefix: "prefix (pushed (takeWhile P rs)) (pushed rs)"
proof -
  have "pushed rs = pushed (takeWhile P rs) @ pushed (dropWhile P rs)"
    by (simp add: pushed_append [symmetric])
  then show ?thesis
    by (metis prefixI)
qed

lemma pushed_mutations: "pushed (map (\<lambda>l. Mutation (Some l)) ls) = ls"
  by (induction ls) simp_all

section \<open>A removed channel\<close>

lemma gone_step: "gone h (pubsub s) \<Longrightarrow> gone h (pubsub (snd (step r s)))"
proof -
  assume g: "gone h (pubsub s)"
  then have d: "dead h (pubsub (snd (step r s)))"
    by (simp add: gone_def dead_step)
  have "h \<notin> snd ` set (registry (pubsub (snd (step r s))))"
    using g unfolding gone_def dead_def pubsub_step
    by (auto simp: broker_fields split: request.splits option.splits)
  with d show ?thesis by (simp add: gone_def)
qed

lemma gone_run: "gone h (pubsub s) \<Longrightarrow> gone h (pubsub (run rs s))"
  by (induction rs arbitrary: s) (simp_all add: gone_step)

lemma mark_terminal_not_live: "\<not> is_live chs h \<Longrightarrow> mark_terminal h chs = chs"
  by (cases "chs h") (auto simp: mark_terminal_def is_live_def)

lemma gone_unsubscribe: "gone h b \<Longrightarrow> unsubscribe h b = b"
proof -
  assume g: "gone h b"
  then have "filter (\<lambda>r. snd r \<noteq> h) (registry b) = registry b"
    by (auto simp: gone_def filter_id_conv)
  moreover have "mark_terminal h (channels b) = channels b"
    using g by (simp add: gone_def dead_def mark_terminal_not_live)
  ultimately show ?thesis
    by (simp add: unsubscribe_def)
qed

lemma unsubscribe_gone: "wf_broker b \<Longrightarrow> h < next_handle b \<Longrightarrow> gone h (unsubscribe h b)"
  by (auto simp: gone_def dead_def wf_unsubscribe broker_fields is_live_mark_terminal)

lemma run_append: "run (rs @ rs') s = run rs' (run rs s)"
  by (induction rs arbitrary: s) simp_all

lemma next_handle_step: "next_handle (pubsub s) \<le> next_handle (pubsub (snd (step r s)))"
  unfolding pubsub_step
  by (simp add: broker_fields split: request.splits option.splits)

lemma next_handle_run: "next_handle (pubsub s) \<le> next_handle (pubsub (run rs s))"
proof (induction rs arbitrary: s)
  case Nil
  show ?case by simp
next
  case (Cons r rs)
  show ?case
    using next_handle_step [of s r] Cons.IH [of "snd (step r s)"] by simp
qed

lemma unsubscribe_twice: "unsubscribe h (unsubscribe h b) = unsubscribe h b"
proof -
  have "\<not> is_live (mark_terminal h (channels b)) h"
    by (simp add: is_live_mark_terminal)
  then have "mark_terminal h (mark_terminal h (channels b)) = mark_terminal h (channels b)"
    by (rule mark_terminal_not_live)
  then show ?thesis
    by (simp add: unsubscribe_def)
qed

lemma subscribe_step:
  "newNotification_subscribe s = (h, s1) \<Longrightarrow> s1 = snd (step Subscription s) \<and> h = next_handle (pubsub s)"
  by (auto simp: newNotification_subscribe_def case_prod_beta subscribe_fields)

text \<open>The equations that evaluate the model on a concrete sequence of requests.\<close>

lemmas eval_defs =
  initial_server_def new_PubSub_def Query_notifications_def Mutation_pushNotification_def
  pushNotification_def newNotification_subscribe_def publish_def deliver_def subscribe_def
  unsubscribe_def cancel_def mark_terminal_def is_live_def observed_def event_of_def
  NOTIFICATION_SUBSCRIPTION_TOPIC_def Let_def

section \<open>The claims\<close>

text \<open>
  C1, as stated, fails. The resolver builds the notification from whatever string it is
  given and has no check of its own; the schema's \<open>String!\<close> refuses only an absent
  label. On the initial server a mutation with the label \<open>""\<close> does not end in a
  \<open>ValidationError\<close>, and the log is not left as it was.
\<close>

theorem empty_label_not_rejected:
  "\<not> (fst (Mutation_pushNotification (Some '''') initial_server) = Inl ValidationError \<and>
      notifications (snd (Mutation_pushNotification (Some '''') initial_server)) =
        notifications initial_server)"
  by (simp add: Mutation_pushNotification_def pushNotification_def Let_def)

text \<open>
  C1, amended: calling the mutation resolver with the empty-string label does not fail.
  In every state it returns \<open>{label: ""}\<close> and the log grows by exactly that one
  notification, at its end.
\<close>

theorem empty_label_appended:
  "fst (Mutation_pushNotification (Some '''') s) = Inr \<lparr>label = ''''\<rparr> \<and>
   notifications (snd (Mutation_pushNotification (Some '''') s)) =
     notifications s @ [\<lparr>label = ''''\<rparr>]"
  by (simp add: Mutation_pushNotification_def pushNotification_def Let_def)

theorem empty_label_appended_witness:
  "fst (Mutation_pushNotification (Some '''') initial_server) = Inr \<lparr>label = ''''\<rparr> \<and>
   notifications (snd (Mutation_pushNotification (Some '''') initial_server)) = [\<lparr>label = ''''\<rparr>]"
  using empty_label_appended [of initial_server] by (simp add: initial_server_def)

text \<open>
  C2: after the successful appends with labels \<open>l1, ..., ln\<close> on the initial server the
  query returns \<open>[{label: l1}, ..., {label: ln}]\<close>, in this order; the query returns its
  state unchanged; and over any sequence of requests from any state the log only grows
  at its end, by the labels of the successful mutations in request order, so that nothing
  is deleted or reordered.
\<close>

theorem notifications_in_insertion_order:
  "fst (Query_notifications (run (map (\<lambda>l. Mutation (Some l)) ls) initial_server)) =
     map (\<lambda>l. \<lparr>label = l\<rparr>) ls \<and>
   snd (Query_notifications s) = s \<and>
   fst (Query_notifications (run rs s)) = notifications s @ map (\<lambda>l. \<lparr>label = l\<rparr>) (pushed rs)"
  by (simp add: Query_notifications_def notifications_run pushed_mutations initial_server_def)

theorem notifications_in_insertion_order_witness:
  "fst (Query_notifications (run (map (\<lambda>l. Mutation (Some l)) [''a'', ''b'', ''a'']) initial_server)) =
     [\<lparr>label = ''a''\<rparr>, \<lparr>label = ''b''\<rparr>, \<lparr>label = ''a''\<rparr>] \<and>
   snd (Query_notifications initial_server) = initial_server \<and>
   fst (Query_notifications
     (run [Mutation (Some ''c''), Query, Mutation None, Subscription, Mutation (Some ''d'')]
        (run [Mutation (Some ''a'')] initial_server))) =
     [\<lparr>label = ''a''\<rparr>, \<lparr>label = ''c''\<rparr>, \<lparr>label = ''d''\<rparr>]"
  using notifications_in_insertion_order [of "[''a'', ''b'', ''a'']" initial_server
      "[Mutation (Some ''c''), Query, Mutation None, Subscription, Mutation (Some ''d'')]"]
    notifications_in_insertion_order [of "[]" "run [Mutation (Some ''a'')] initial_server"
      "[Mutation (Some ''c''), Query, Mutation None, Subscription, Mutation (Some ''d'')]"]
  by (simp add: eval_defs)

text \<open>
  C3: in every state \<open>s\<close> the server can reach, \<open>pushNotification(l)\<close> returns
  \<open>{label: l}\<close>; every channel that is live and registered under the notification topic
  receives, once and after all it had received before, the payload carrying \<open>{label: l}\<close>;
  and a query after the call returns the former log with \<open>{label: l}\<close> appended at the end.
  The instance with the label \<open>hello\<close> and one subscriber follows the theorem.
\<close>

theorem pushNotification_end_to_end:
  assumes "s = run rs initial_server"
  shows "fst (pushNotification l s) = \<lparr>label = l\<rparr> \<and>
    (\<forall>h. (NOTIFICATION_SUBSCRIPTION_TOPIC, h) \<in> set (registry (pubsub s)) \<and>
          is_live (channels (pubsub s)) h \<longrightarrow>
          observed (pubsub (snd (pushNotification l s))) h =
            observed (pubsub s) h @ [\<lparr>newNotification = \<lparr>label = l\<rparr>\<rparr>]) \<and>
    fst (Query_notifications (snd (pushNotification l s))) = notifications s @ [\<lparr>label = l\<rparr>]"
proof -
  have "wf_broker (pubsub s)"
    using assms by (simp add: wf_reachable)
  then have "distinct (map snd (registry (pubsub s)))"
    by (simp add: wf_broker_def)
  then have "\<forall>h. (NOTIFICATION_SUBSCRIPTION_TOPIC, h) \<in> set (registry (pubsub s)) \<and>
          is_live (channels (pubsub s)) h \<longrightarrow>
          observed (pubsub (snd (pushNotification l s))) h =
            observed (pubsub s) h @ [\<lparr>newNotification = \<lparr>label = l\<rparr>\<rparr>]"
    by (simp add: pubsub_push observed_publish event_of_def)
  moreover have "fst (pushNotification l s) = \<lparr>label = l\<rparr>"
    by (simp add: pushNotification_def Let_def)
  moreover have "fst (Query_notifications (snd (pushNotification l s))) =
      notifications s @ [\<lparr>label = l\<rparr>]"
    by (simp add: Query_notifications_def pushNotification_def Let_def)
  ultimately show ?thesis by blast
qed

theorem pushNotification_end_to_end_witness:
  "fst (pushNotification ''hello'' (run [Subscription] initial_server)) = \<lparr>label = ''hello''\<rparr> \<and>
   observed (pubsub (snd (pushNotification ''hello'' (run [Subscription] initial_server)))) 0 =
     [\<lparr>newNotification = \<lparr>label = ''hello''\<rparr>\<rparr>] \<and>
   fst (Query_notifications (snd (pushNotification ''hello'' (run [Subscription] initial_server)))) =
     [\<lparr>label = ''hello''\<rparr>]"
proof -
  have r: "run [Subscription] initial_server = run [Subscription] initial_server" ..
  have m: "(NOTIFICATION_SUBSCRIPTION_TOPIC, 0) \<in> set (registry (pubsub (run [Subscription] initial_server)))
      \<and> is_live (channels (pubsub (run [Subscription] initial_server))) 0"
    by (simp add: eval_defs)
  have o: "observed (pubsub (run [Subscription] initial_server)) 0 = []"
    by (simp add: eval_defs)
  have n: "notifications (run [Subscription] initial_server) = []"
    by (simp add: eval_defs)
  show ?thesis
    using pushNotification_end_to_end [OF r, of "''hello''"] m o n by simp
qed

text \<open>
  C4: one call of the resolver appends \<open>{label: l}\<close> to the log and adds exactly one
  entry to the trace of publish calls, carrying the same notification, whatever the
  registry holds (an empty registry included); in every reachable state the notifications
  carried by the published events, in publish order, are the log; and the mutation with a
  string label succeeds in every state, whatever the number of subscribers.
\<close>

theorem publish_follows_append:
  "notifications (snd (pushNotification l s)) = notifications s @ [\<lparr>label = l\<rparr>] \<and>
   published (pubsub (snd (pushNotification l s))) =
     published (pubsub s) @ [(NOTIFICATION_SUBSCRIPTION_TOPIC, \<lparr>newNotification = \<lparr>label = l\<rparr>\<rparr>)] \<and>
   map (\<lambda>p. newNotification (snd p)) (published (pubsub (run rs initial_server))) =
     notifications (run rs initial_server) \<and>
   fst (Mutation_pushNotification (Some l) s) = Inr \<lparr>label = l\<rparr>"
proof -
  have "map (\<lambda>p. newNotification (snd p)) (published (pubsub (run rs initial_server))) =
      notifications (run rs initial_server)"
    by (simp add: published_run notifications_run initial_server_def new_PubSub_def
        event_of_def comp_def)
  then show ?thesis
    by (simp add: Mutation_pushNotification_def pushNotification_def Let_def publish_fields)
qed

theorem publish_follows_append_witness:
  "notifications (snd (pushNotification ''a'' initial_server)) = [\<lparr>label = ''a''\<rparr>] \<and>
   registry (pubsub initial_server) = [] \<and>
   published (pubsub (snd (pushNotification ''a'' initial_server))) =
     [(''newNotifications'', \<lparr>newNotification = \<lparr>label = ''a''\<rparr>\<rparr>)] \<and>
   map (\<lambda>p. newNotification (snd p))
     (published (pubsub (run [Mutation (Some ''a''), Subscription, Mutation (Some ''b'')] initial_server))) =
     [\<lparr>label = ''a''\<rparr>, \<lparr>label = ''b''\<rparr>] \<and>
   fst (Mutation_pushNotification (Some ''a'') initial_server) = Inr \<lparr>label = ''a''\<rparr>"
  using publish_follows_append [of "''a''" initial_server
      "[Mutation (Some ''a''), Subscription, Mutation (Some ''b'')]"]
  by (simp add: eval_defs)

text \<open>
  C5: let a subscription be registered in a reachable state, giving the channel \<open>h\<close>.
  Over any later sequence of requests that neither disconnects nor cancels \<open>h\<close>, the
  events the channel has observed are exactly the events published by the successful
  mutations of that sequence: each one once, in publish order.
\<close>

theorem subscriber_observes_each_event_once_in_order:
  assumes "newNotification_subscribe (run rs0 initial_server) = (h, s1)"
    and "Disconnect h \<notin> set rs" and "Cancel h \<notin> set rs"
  shows "observed (pubsub (run rs s1)) h = map event_of (pushed rs)"
proof -
  have "active (fst (newNotification_subscribe (run rs0 initial_server)))
      (pubsub (snd (newNotification_subscribe (run rs0 initial_server))))"
    by (rule subscribe_active) (rule wf_reachable)
  then have a: "active h (pubsub s1)"
    using assms(1) by simp
  have e: "observed (pubsub s1) h = []"
    using assms(1) by (auto simp: newNotification_subscribe_def case_prod_beta observed_subscribe
        subscribe_fields)
  have t: "takeWhile (keeps h) rs = rs"
    using assms(2,3) by (auto simp: keeps_def)
  from active_run [OF a, of rs] show ?thesis
    unfolding t e by simp
qed

theorem subscriber_observes_each_event_once_in_order_witness:
  "newNotification_subscribe (run [Mutation (Some ''old''), Subscription] initial_server) =
     (1, run [Mutation (Some ''old''), Subscription, Subscription] initial_server) \<and>
   observed (pubsub (run [Mutation (Some ''x''), Disconnect 0, Query, Mutation (Some ''y''),
       Mutation (Some ''x'')]
     (run [Mutation (Some ''old''), Subscription, Subscription] initial_server))) 1 =
     [event_of ''x'', event_of ''y'', event_of ''x'']"
proof -
  have s: "newNotification_subscribe (run [Mutation (Some ''old''), Subscription] initial_server) =
     (1, run [Mutation (Some ''old''), Subscription, Subscription] initial_server)"
    by (simp add: eval_defs)
  have d: "Disconnect 1 \<notin> set [Mutation (Some ''x''), Disconnect 0, Query, Mutation (Some ''y''),
       Mutation (Some ''x'')]"
    by simp
  have c: "Cancel 1 \<notin> set [Mutation (Some ''x''), Disconnect 0, Query, Mutation (Some ''y''),
       Mutation (Some ''x'')]"
    by simp
  show ?thesis
    using subscriber_observes_each_event_once_in_order [OF s d c] s by simp
qed

text \<open>
  C6: a channel just registered has observed nothing, whatever was pushed before and
  whatever the log holds; and after any later sequence of requests what it has observed is
  an initial segment of the events published during that sequence. No event published
  before the registration is among them.
\<close>

theorem no_backlog_on_subscribe:
  assumes "newNotification_subscribe (run rs0 initial_server) = (h, s1)"
  shows "observed (pubsub s1) h = [] \<and>
    prefix (observed (pubsub (run rs s1)) h) (map event_of (pushed rs))"
proof -
  have "active (fst (newNotification_subscribe (run rs0 initial_server)))
      (pubsub (snd (newNotification_subscribe (run rs0 initial_server))))"
    by (rule subscribe_active) (rule wf_reachable)
  then have a: "active h (pubsub s1)"
    using assms by simp
  have e: "observed (pubsub s1) h = []"
    using assms by (auto simp: newNotification_subscribe_def case_prod_beta observed_subscribe
        subscribe_fields)
  have "prefix (map event_of (pushed (takeWhile (keeps h) rs))) (map event_of (pushed rs))"
    by (intro map_mono_prefix pushed_takeWhile_prefix)
  then show ?thesis
    using active_run [OF a, of rs] e by simp
qed

theorem no_backlog_on_subscribe_witness:
  "newNotification_subscribe (run [Mutation (Some ''old'')] initial_server) =
     (0, run [Mutation (Some ''old''), Subscription] initial_server) \<and>
   notifications (run [Mutation (Some ''old''), Subscription] initial_server) = [\<lparr>label = ''old''\<rparr>] \<and>
   observed (pubsub (run [Mutation (Some ''old''), Subscription] initial_server)) 0 = [] \<and>
   prefix (observed (pubsub (run [Mutation (Some ''new'')]
       (run [Mutation (Some ''old''), Subscription] initial_server))) 0) [event_of ''new'']"
proof -
  have s: "newNotification_subscribe (run [Mutation (Some ''old'')] initial_server) =
     (0, run [Mutation (Some ''old''), Subscription] initial_server)"
    by (simp add: eval_defs)
  have n: "notifications (run [Mutation (Some ''old''), Subscription] initial_server) =
      [\<lparr>label = ''old''\<rparr>]"
    by (simp add: eval_defs)
  show ?thesis
    using no_backlog_on_subscribe [OF s, of "[Mutation (Some ''new'')]"] s n by simp
qed

text \<open>
  C7: let \<open>h\<close> be a channel registered in a reachable state and, after any requests,
  disconnected (\<open>unsubscribe h\<close>), giving the state \<open>s2\<close>. Whatever requests follow, \<open>h\<close>
  observes nothing more; disconnecting \<open>h\<close> again at any later moment answers normally
  and leaves the state as it is; and for every broker and handle a second \<open>unsubscribe\<close>
  changes nothing after the first.
\<close>

theorem unsubscribe_stops_delivery:
  assumes "newNotification_subscribe (run rs0 initial_server) = (h, s1)"
    and "s2 = snd (step (Disconnect h) (run rs1 s1))"
  shows "observed (pubsub (run rs2 s2)) h = observed (pubsub s2) h \<and>
    step (Disconnect h) (run rs2 s2) = (Closed, run rs2 s2) \<and>
    unsubscribe h (unsubscribe h b) = unsubscribe h b"
proof -
  let ?s0 = "run rs0 initial_server"
  have s1: "s1 = snd (step Subscription ?s0)" and h: "h = next_handle (pubsub ?s0)"
    using subscribe_step [OF assms(1)] by simp_all
  have r: "run rs1 s1 = run (rs0 @ Subscription # rs1) initial_server"
    by (simp add: run_append s1)
  have w: "wf_broker (pubsub (run rs1 s1))"
    unfolding r by (rule wf_reachable)
  have "h < next_handle (pubsub s1)"
    unfolding s1 h pubsub_step by (simp add: subscribe_fields)
  then have "h < next_handle (pubsub (run rs1 s1))"
    using next_handle_run [of s1 rs1] by simp
  with w have "gone h (unsubscribe h (pubsub (run rs1 s1)))"
    by (rule unsubscribe_gone)
  then have g2: "gone h (pubsub s2)"
    by (simp add: assms(2))
  then have g: "gone h (pubsub (run rs2 s2))"
    by (rule gone_run)
  from g2 have "dead h (pubsub s2)"
    by (simp add: gone_def)
  then have "observed (pubsub (run rs2 s2)) h = observed (pubsub s2) h"
    by (rule dead_run)
  moreover from g have "unsubscribe h (pubsub (run rs2 s2)) = pubsub (run rs2 s2)"
    by (rule gone_unsubscribe)
  ultimately show ?thesis
    by (simp add: unsubscribe_twice)
qed

theorem unsubscribe_stops_delivery_witness:
  "newNotification_subscribe (run [Subscription] initial_server) =
     (1, run [Subscription, Subscription] initial_server) \<and>
   observed (pubsub (run [Subscription, Subscription, Mutation (Some ''a''), Disconnect 1]
     initial_server)) 1 = [\<lparr>newNotification = \<lparr>label = ''a''\<rparr>\<rparr>] \<and>
   observed (pubsub (run [Mutation (Some ''b''), Subscription, Mutation (Some ''c'')]
     (run [Subscription, Subscription, Mutation (Some ''a''), Disconnect 1] initial_server))) 1 =
     [\<lparr>newNotification = \<lparr>label = ''a''\<rparr>\<rparr>] \<and>
   step (Disconnect 1) (run [Mutation (Some ''b''), Subscription, Mutation (Some ''c'')]
     (run [Subscription, Subscription, Mutation (Some ''a''), Disconnect 1] initial_server)) =
     (Closed, run [Mutation (Some ''b''), Subscription, Mutation (Some ''c'')]
     (run [Subscription, Subscription, Mutation (Some ''a''), Disconnect 1] initial_server)) \<and>
   unsubscribe 1 (unsubscribe 1 (pubsub (run [Subscription, Subscription] initial_server))) =
     unsubscribe 1 (pubsub (run [Subscription, Subscription] initial_server))"
proof -
  have s: "newNotification_subscribe (run [Subscription] initial_server) =
     (1, run [Subscription, Subscription] initial_server)"
    by (simp add: eval_defs)
  have t: "run [Subscription, Subscription, Mutation (Some ''a''), Disconnect 1] initial_server =
      snd (step (Disconnect 1) (run [Mutation (Some ''a'')]
        (run [Subscription, Subscription] initial_server)))"
    by simp
  have o: "observed (pubsub (run [Subscription, Subscription, Mutation (Some ''a''), Disconnect 1]
     initial_server)) 1 = [\<lparr>newNotification = \<lparr>label = ''a''\<rparr>\<rparr>]"
    by (simp add: eval_defs)
  show ?thesis
    using unsubscribe_stops_delivery [OF s t,
        of "[Mutation (Some ''b''), Subscription, Mutation (Some ''c'')]"
           "pubsub (run [Subscription, Subscription] initial_server)"] s o
    by simp
qed

text \<open>
  C8: when a \<open>pushNotification\<close> mutation ends in a request-level error, the state after
  it is the state before it: the log, the registry, the channels and the trace of publish
  calls are untouched.
\<close>

theorem failed_mutation_changes_nothing:
  assumes "fst (Mutation_pushNotification a s) = Inl e"
  shows "snd (Mutation_pushNotification a s) = s"
  using assms
  by (cases a) (simp_all add: Mutation_pushNotification_def case_prod_beta Let_def)

theorem failed_mutation_changes_nothing_witness:
  "fst (Mutation_pushNotification None (run [Subscription, Mutation (Some ''a'')] initial_server)) =
     Inl ValidationError \<and>
   snd (Mutation_pushNotification None (run [Subscription, Mutation (Some ''a'')] initial_server)) =
     run [Subscription, Mutation (Some ''a'')] initial_server"
proof -
  have f: "fst (Mutation_pushNotification None
      (run [Subscription, Mutation (Some ''a'')] initial_server)) = Inl ValidationError"
    by (simp add: Mutation_pushNotification_def)
  show ?thesis
    using failed_mutation_changes_nothing [OF f] f by simp
qed

text \<open>
  C9: for every string label, the empty one included, the mutation succeeds with
  \<open>{label: label}\<close>; the label of the returned notification is the argument, character
  for character; the notification appended last to the log is the returned one; and the
  payload of the last publish call wraps the returned one.
\<close>

theorem pushNotification_verbatim:
  "fst (Mutation_pushNotification (Some l) s) = Inr \<lparr>label = l\<rparr> \<and>
   label (fst (pushNotification l s)) = l \<and>
   last (notifications (snd (pushNotification l s))) = fst (pushNotification l s) \<and>
   snd (last (published (pubsub (snd (pushNotification l s))))) =
     \<lparr>newNotification = fst (pushNotification l s)\<rparr>"
  by (simp add: Mutation_pushNotification_def pushNotification_def Let_def publish_fields)

theorem pushNotification_verbatim_witness:
  "fst (Mutation_pushNotification (Some '' A  b '') initial_server) = Inr \<lparr>label = '' A  b ''\<rparr> \<and>
   label (fst (pushNotification '''' initial_server)) = '''' \<and>
   last (notifications (snd (pushNotification '' A  b '' initial_server))) = \<lparr>label = '' A  b ''\<rparr> \<and>
   snd (last (published (pubsub (snd (pushNotification '' A  b '' initial_server))))) =
     \<lparr>newNotification = \<lparr>label = '' A  b ''\<rparr>\<rparr>"
  using pushNotification_verbatim [of "'' A  b ''" initial_server]
    pushNotification_verbatim [of "''''" initial_server]
  by (simp add: pushNotification_def Let_def)

text \<open>
  C10: in every reachable state each registry entry and each publish call is on the topic
  \<open>NOTIFICATION_SUBSCRIPTION_TOPIC\<close>. No registered channel is left out of a publish by
  its topic: a \<open>pushNotification(l)\<close> delivers the payload of \<open>{label: l}\<close> to every
  registry entry whose channel is live, with no condition on the entry's topic, and every
  channel in the registry after the call has received it.
\<close>

theorem single_topic:
  "list_all (\<lambda>r. fst r = NOTIFICATION_SUBSCRIPTION_TOPIC) (registry (pubsub (run rs initial_server))) \<and>
   list_all (\<lambda>p. fst p = NOTIFICATION_SUBSCRIPTION_TOPIC) (published (pubsub (run rs initial_server))) \<and>
   (\<forall>r \<in> set (registry (pubsub (run rs initial_server))).
      is_live (channels (pubsub (run rs initial_server))) (snd r) \<longrightarrow>
      observed (pubsub (snd (pushNotification l (run rs initial_server)))) (snd r) =
        observed (pubsub (run rs initial_server)) (snd r) @ [\<lparr>newNotification = \<lparr>label = l\<rparr>\<rparr>]) \<and>
   (\<forall>r \<in> set (registry (pubsub (snd (pushNotification l (run rs initial_server))))).
      observed (pubsub (snd (pushNotification l (run rs initial_server)))) (snd r) =
        observed (pubsub (run rs initial_server)) (snd r) @ [\<lparr>newNotification = \<lparr>label = l\<rparr>\<rparr>])"
proof -
  let ?s = "run rs initial_server"
  have reg: "list_all (\<lambda>r. fst r = NOTIFICATION_SUBSCRIPTION_TOPIC) (registry (pubsub ?s))"
    by (rule registry_topic_run) (simp add: initial_server_def new_PubSub_def)
  have pub: "list_all (\<lambda>p. fst p = NOTIFICATION_SUBSCRIPTION_TOPIC) (published (pubsub ?s))"
    by (simp add: published_run initial_server_def new_PubSub_def list_all_iff)
  have d: "distinct (map snd (registry (pubsub ?s)))"
    using wf_reachable [of rs] by (simp add: wf_broker_def)
  have before: "\<forall>r \<in> set (registry (pubsub ?s)).
      is_live (channels (pubsub ?s)) (snd r) \<longrightarrow>
      observed (pubsub (snd (pushNotification l ?s))) (snd r) =
        observed (pubsub ?s) (snd r) @ [\<lparr>newNotification = \<lparr>label = l\<rparr>\<rparr>]"
    using reg by (auto simp: pubsub_push observed_publish [OF d] list_all_iff event_of_def)
  have "\<forall>r \<in> set (registry (pubsub (snd (pushNotification l ?s)))).
      observed (pubsub (snd (pushNotification l ?s))) (snd r) =
        observed (pubsub ?s) (snd r) @ [\<lparr>newNotification = \<lparr>label = l\<rparr>\<rparr>]"
    using reg by (auto simp: pubsub_push publish_fields observed_publish [OF d] list_all_iff
        event_of_def)
  with reg pub before show ?thesis by blast
qed

theorem single_topic_witness:
  "registry (pubsub (run [Subscription, Mutation (Some ''a''), Subscription] initial_server)) =
     [(''newNotifications'', 0), (''newNotifications'', 1)] \<and>
   published (pubsub (run [Subscription, Mutation (Some ''a''), Subscription] initial_server)) =
     [(''newNotifications'', \<lparr>newNotification = \<lparr>label = ''a''\<rparr>\<rparr>)] \<and>
   observed (pubsub (snd (pushNotification ''b''
       (run [Subscription, Mutation (Some ''a''), Subscription] initial_server)))) 0 =
     [\<lparr>newNotification = \<lparr>label = ''a''\<rparr>\<rparr>, \<lparr>newNotification = \<lparr>label = ''b''\<rparr>\<rparr>] \<and>
   observed (pubsub (snd (pushNotification ''b''
       (run [Subscription, Mutation (Some ''a''), Subscription] initial_server)))) 1 =
     [\<lparr>newNotification = \<lparr>label = ''b''\<rparr>\<rparr>]"
proof -
  let ?s = "run [Subscription, Mutation (Some ''a''), Subscription] initial_server"
  have r: "registry (pubsub ?s) = [(''newNotifications'', 0), (''newNotifications'', 1)]"
    by (simp add: eval_defs)
  have r': "registry (pubsub (snd (pushNotification ''b'' ?s))) =
      [(''newNotifications'', 0), (''newNotifications'', 1)]"
    by (simp add: eval_defs)
  have p: "published (pubsub ?s) = [(''newNotifications'', \<lparr>newNotification = \<lparr>label = ''a''\<rparr>\<rparr>)]"
    by (simp add: eval_defs)
  have o: "observed (pubsub ?s) 0 = [\<lparr>newNotification = \<lparr>label = ''a''\<rparr>\<rparr>]"
      "observed (pubsub ?s) 1 = []"
    by (simp_all add: eval_defs)
  have v: "is_live (channels (pubsub ?s)) 0" "is_live (channels (pubsub ?s)) 1"
    by (simp_all add: eval_defs)
  show ?thesis
    using single_topic [of "[Subscription, Mutation (Some ''a''), Subscription]" "''b''"] r r' p o v
    by simp
qed

end
